theory Spec2Isabelle
  imports Main "HOL-Library.Finite_Map"
begin

section \<open>The remote cluster service (services/remotecluster/service.go)\<close>

text \<open>
  A shallow embedding of \<^verbatim>\<open>service.go\<close>: the response envelope, the topic
  listener registry and the lifecycle of the service (\<^verbatim>\<open>Start\<close>,
  \<^verbatim>\<open>Shutdown\<close>, \<^verbatim>\<open>resume\<close>, \<^verbatim>\<open>pause\<close>).
  Every method of the service takes the mutex \<^verbatim>\<open>mux\<close> for the whole of its
  access to the guarded fields, so the methods are modelled as atomic steps of a
  sequential state; panics are values of a sum type.
\<close>

subsection \<open>Constants\<close>

text \<open>
  Modelled from the spec: \<^verbatim>\<open>ResponseStatusKey\<close>, \<^verbatim>\<open>ResponseStatusOK\<close> and
  \<^verbatim>\<open>ResponseStatusFail\<close> are aliases of \<^verbatim>\<open>model.STATUS\<close>,
  \<^verbatim>\<open>model.STATUS_OK\<close> and \<^verbatim>\<open>model.STATUS_FAIL\<close>, whose declarations are in
  package \<^verbatim>\<open>model\<close>; the spec gives the status key and the sentinels "OK" and
  "FAIL". \<^verbatim>\<open>ResponseErrorKey\<close> is declared in the file itself.
\<close>

definition ResponseStatusKey :: string where
  "ResponseStatusKey = ''status''"

definition ResponseErrorKey :: string where
  "ResponseErrorKey = ''err''"

definition ResponseStatusOK :: string where
  "ResponseStatusOK = ''OK''"

definition ResponseStatusFail :: string where
  "ResponseStatusFail = ''FAIL''"

subsection \<open>Values of type interface{} and their rendering by the verb v\<close>

text \<open>
  A \<^verbatim>\<open>Response\<close> stores values of the empty interface. The file only ever renders
  them with \<^verbatim>\<open>fmt.Sprintf("%v", val)\<close>, so a value is modelled by its dynamic type
  where the rendering is fixed by the language (nil, booleans, integers, strings), and
  by its rendering for every other dynamic type (a named string type, an error, a
  \<^verbatim>\<open>fmt.Stringer\<close>, a slice, ...).
\<close>

datatype gvalue =
    VNil
  | VBool bool
  | VInt int
  | VString string
  | VOther string

definition digit :: "nat \<Rightarrow> char" where
  "digit d = ''0123456789'' ! d"

fun decimal :: "nat \<Rightarrow> string" where
  "decimal n = (if n < 10 then [digit n] else decimal (n div 10) @ [digit (n mod 10)])"

declare decimal.simps [simp del]

fun Sprint :: "gvalue \<Rightarrow> string" where
  "Sprint VNil = ''<nil>''"
| "Sprint (VBool b) = (if b then ''true'' else ''false'')"
| "Sprint (VInt i) = (if i < 0 then CHR ''-'' # decimal (nat (- i)) else decimal (nat i))"
| "Sprint (VString s) = s"
| "Sprint (VOther s) = s"

subsection \<open>Response\<close>

text \<open>
  \<^verbatim>\<open>type Response map[string]interface{}\<close>. The three methods only read the map,
  and reading a nil map finds no key, so a nil \<^verbatim>\<open>Response\<close> is the empty map.
\<close>

type_synonym Response = "(string, gvalue) fmap"

definition String :: "Response \<Rightarrow> string \<Rightarrow> string" where
  "String r key = (case fmlookup r key of Some val \<Rightarrow> Sprint val | None \<Rightarrow> [])"

definition IsSuccess :: "Response \<Rightarrow> bool" where
  "IsSuccess r \<longleftrightarrow> String r ResponseStatusKey = ResponseStatusOK"

text \<open>\<^verbatim>\<open>fmt.Sprintf("%s: %s", a, b)\<close> on two strings.\<close>

definition Sprintf_s_s :: "string \<Rightarrow> string \<Rightarrow> string" where
  "Sprintf_s_s a b = a @ '': '' @ b"

definition Error :: "Response \<Rightarrow> string" where
  "Error r =
     (let status = String r ResponseStatusKey
      in if status = ResponseStatusFail
         then Sprintf_s_s status (String r ResponseErrorKey)
         else [])"

subsection \<open>Maps, channels and panics\<close>

text \<open>
  A Go map value is nil or a finite map (\<open>None\<close> is nil). Reading a nil map finds no
  key, its length is 0, deleting from it does nothing, and assigning to it panics.
  A \<^verbatim>\<open>range\<close> over a map yields each key once, in an order the runtime chooses;
  the order is a parameter of every function that ranges.
\<close>

datatype panic = AssignToNilMap | CloseOfNilChannel | CloseOfClosedChannel

type_synonym ('k, 'v) gomap = "('k, 'v) fmap option"

definition map_index :: "('k, 'v) gomap \<Rightarrow> 'k \<Rightarrow> 'v option" where
  "map_index m k = (case m of None \<Rightarrow> None | Some f \<Rightarrow> fmlookup f k)"

definition map_len :: "('k, 'v) gomap \<Rightarrow> nat" where
  "map_len m = (case m of None \<Rightarrow> 0 | Some f \<Rightarrow> fcard (fmdom f))"

definition map_delete :: "('k, 'v) gomap \<Rightarrow> 'k \<Rightarrow> ('k, 'v) gomap" where
  "map_delete m k = (case m of None \<Rightarrow> None | Some f \<Rightarrow> Some (fmdrop k f))"

definition map_assign :: "('k, 'v) gomap \<Rightarrow> 'k \<Rightarrow> 'v \<Rightarrow> panic + ('k, 'v) gomap" where
  "map_assign m k v = (case m of None \<Rightarrow> Inl AssignToNilMap | Some f \<Rightarrow> Inr (Some (fmupd k v f)))"

text \<open>The values a range over the map yields when it visits the keys in the order \<open>ks\<close>.\<close>

fun range_values :: "('k, 'v) gomap \<Rightarrow> 'k list \<Rightarrow> 'v list" where
  "range_values m [] = []"
| "range_values m (k # ks) =
     (case map_index m k of None \<Rightarrow> range_values m ks | Some v \<Rightarrow> v # range_values m ks)"

definition range_order :: "'k list \<Rightarrow> ('k, 'v) gomap \<Rightarrow> bool" where
  "range_order ks m \<longleftrightarrow>
     (case m of None \<Rightarrow> ks = [] | Some f \<Rightarrow> distinct ks \<and> set ks = fmdom' f)"

text \<open>
  A channel is an address into the list of the channels made so far;
  \<^verbatim>\<open>make(chan struct{})\<close> appends an open one. A variable of channel type holds
  \<open>None\<close> (nil) or an address.
\<close>

datatype chan_state = Open | Closed

subsection \<open>The service and its environment\<close>

record 'l topicListenerEntry =
  id_entry :: string
  listener :: 'l

text \<open>
  Modelled from the spec: \<^verbatim>\<open>ServerIface\<close> is an interface, and no implementation of
  it is among the sources. The service uses its leadership query, the subscription and
  unsubscription of a leadership listener by an opaque handle, and the debug log. The
  handle that a subscription returns is chosen by the server, so it is a parameter;
  unsubscribing a handle that is not registered does nothing.
\<close>

record server =
  leader :: bool
  clusterLeaderChangedListeners :: "string list"
  logged :: "string list"

definition IsLeader :: "server \<Rightarrow> bool" where
  "IsLeader srv = leader srv"

definition AddClusterLeaderChangedListener :: "string \<Rightarrow> server \<Rightarrow> string \<times> server" where
  "AddClusterLeaderChangedListener handle srv =
     (handle, srv\<lparr>clusterLeaderChangedListeners := clusterLeaderChangedListeners srv @ [handle]\<rparr>)"

definition RemoveClusterLeaderChangedListener :: "string \<Rightarrow> server \<Rightarrow> server" where
  "RemoveClusterLeaderChangedListener handle srv =
     srv\<lparr>clusterLeaderChangedListeners := removeAll handle (clusterLeaderChangedListeners srv)\<rparr>"

definition Debug :: "string \<Rightarrow> server \<Rightarrow> server" where
  "Debug msg srv = srv\<lparr>logged := logged srv @ [msg]\<rparr>"

datatype pipeline = PingLoop | SendLoop

text \<open>
  The state holds the four fields of \<^verbatim>\<open>Service\<close> that \<^verbatim>\<open>mux\<close> guards
  (\<^verbatim>\<open>done\<close> is \<open>done_ch\<close> here), the server, the package variable
  \<^verbatim>\<open>disablePing\<close>, the channels made so far, and the pipelines started so far,
  each with the signal it was given. The fields \<^verbatim>\<open>send\<close> and
  \<^verbatim>\<open>httpClient\<close> are set by the constructor and not read in this file. The
  constructor makes the registry and nothing assigns the field afterwards, so the
  outer map is never nil; the buckets are Go maps, and the code tests them for nil.
\<close>

record 'l state =
  active :: bool
  leaderListenerId :: string
  topicListeners :: "(string, (string, 'l topicListenerEntry) gomap) fmap"
  done_ch :: "nat option"
  server :: server
  disablePing :: bool
  chans :: "chan_state list"
  started :: "(pipeline \<times> nat option) list"

definition NewRemoteClusterService :: "server \<Rightarrow> 'l state" where
  "NewRemoteClusterService srv =
     \<lparr>active = False, leaderListenerId = [], topicListeners = fmempty, done_ch = None,
      server = srv, disablePing = False, chans = [], started = []\<rparr>"

definition make_chan :: "'l state \<Rightarrow> nat option \<times> 'l state" where
  "make_chan s = (Some (length (chans s)), s\<lparr>chans := chans s @ [Open]\<rparr>)"

text \<open>
  \<^verbatim>\<open>close(c)\<close> panics on a nil channel and on a closed one. An address outside
  the list is no channel of the program; closing it is a fault as well.
\<close>

definition close_chan :: "nat option \<Rightarrow> 'l state \<Rightarrow> panic + 'l state" where
  "close_chan c s =
     (case c of
        None \<Rightarrow> Inl CloseOfNilChannel
      | Some a \<Rightarrow>
          if a < length (chans s) \<and> chans s ! a = Open
          then Inr (s\<lparr>chans := (chans s)[a := Closed]\<rparr>)
          else Inl CloseOfClosedChannel)"

text \<open>
  Modelled from the spec: \<^verbatim>\<open>pingLoop\<close> and \<^verbatim>\<open>sendLoop\<close> are methods of
  \<^verbatim>\<open>Service\<close> declared in other files. Each starts its pipeline, parameterized by
  the signal it is given, and returns; the model records the start.
\<close>

definition pingLoop :: "nat option \<Rightarrow> 'l state \<Rightarrow> 'l state" where
  "pingLoop d s = s\<lparr>started := started s @ [(PingLoop, d)]\<rparr>"

definition sendLoop :: "nat option \<Rightarrow> 'l state \<Rightarrow> 'l state" where
  "sendLoop d s = s\<lparr>started := started s @ [(SendLoop, d)]\<rparr>"

subsection \<open>The topic registry\<close>

text \<open>
  Modelled from the spec: \<^verbatim>\<open>model.NewId\<close> is declared in package
  \<^verbatim>\<open>model\<close>; it generates a globally unique id. The id it returns on a call is the
  parameter \<open>newId\<close>.
\<close>

text \<open>
  The index expression \<^verbatim>\<open>rcs.topicListeners[topic]\<close>: the bucket stored under the
  topic, and the zero value of a map type, nil, when there is none.
\<close>

definition index_bucket ::
  "(string, (string, 'l topicListenerEntry) gomap) fmap \<Rightarrow> string
     \<Rightarrow> (string, 'l topicListenerEntry) gomap" where
  "index_bucket reg topic = (case fmlookup reg topic of None \<Rightarrow> None | Some b \<Rightarrow> b)"

definition AddTopicListener ::
  "string \<Rightarrow> string \<Rightarrow> 'l \<Rightarrow> 'l state \<Rightarrow> panic + (string \<times> 'l state)" where
  "AddTopicListener newId topic l s =
     (let entry = \<lparr>id_entry = newId, listener = l\<rparr>;
          reg1 = (case fmlookup (topicListeners s) topic of
                   Some (Some entries) \<Rightarrow> topicListeners s
                 | _ \<Rightarrow> fmupd topic (Some fmempty) (topicListeners s))
      in case map_assign (index_bucket reg1 topic) (id_entry entry) entry of
           Inl p \<Rightarrow> Inl p
         | Inr b \<Rightarrow> Inr (id_entry entry, s\<lparr>topicListeners := fmupd topic b reg1\<rparr>))"

text \<open>
  The loop of \<^verbatim>\<open>RemoveTopicListener\<close> over the topics in the order the range yields
  them. The bucket is deleted from in place, and the loop breaks at the first bucket
  that holds the id.
\<close>

fun remove_loop ::
  "string list \<Rightarrow> string \<Rightarrow> (string, (string, 'l topicListenerEntry) gomap) fmap
     \<Rightarrow> (string, (string, 'l topicListenerEntry) gomap) fmap" where
  "remove_loop [] listenerId reg = reg"
| "remove_loop (topic # rest) listenerId reg =
     (case fmlookup reg topic of
        None \<Rightarrow> remove_loop rest listenerId reg
      | Some entries \<Rightarrow>
          (case map_index entries listenerId of
             Some e \<Rightarrow>
               (let entries' = map_delete entries listenerId;
                    reg' = fmupd topic entries' reg
                in if map_len entries' = 0 then fmdrop topic reg' else reg')
           | None \<Rightarrow> remove_loop rest listenerId reg))"

definition RemoveTopicListener :: "string list \<Rightarrow> string \<Rightarrow> 'l state \<Rightarrow> 'l state" where
  "RemoveTopicListener order listenerId s =
     s\<lparr>topicListeners := remove_loop order listenerId (topicListeners s)\<rparr>"

text \<open>
  \<^verbatim>\<open>getTopicListeners\<close>: \<open>ks\<close> is the order in which the range over the bucket
  yields its keys. The nil slice returned for a topic without a bucket is the empty list.
\<close>

definition getTopicListeners :: "string list \<Rightarrow> string \<Rightarrow> 'l state \<Rightarrow> 'l list" where
  "getTopicListeners ks topic s =
     (case fmlookup (topicListeners s) topic of
        None \<Rightarrow> []
      | Some entries \<Rightarrow> map listener (range_values entries ks))"

subsection \<open>The lifecycle\<close>

definition resume :: "'l state \<Rightarrow> 'l state" where
  "resume s =
     (if active s then s
      else
        let s1 = s\<lparr>active := True\<rparr>;
            (c, s2) = make_chan s1;
            s3 = s2\<lparr>done_ch := c\<rparr>;
            s4 = (if \<not> disablePing s3 then pingLoop (done_ch s3) s3 else s3);
            s5 = sendLoop (done_ch s4) s4
        in s5\<lparr>server := Debug ''Remote Cluster Service active'' (server s5)\<rparr>)"

definition pause :: "'l state \<Rightarrow> panic + 'l state" where
  "pause s =
     (if \<not> active s then Inr s
      else
        let s1 = s\<lparr>active := False\<rparr>
        in case close_chan (done_ch s1) s1 of
             Inl p \<Rightarrow> Inl p
           | Inr s2 \<Rightarrow>
               (let s3 = s2\<lparr>done_ch := None\<rparr>
                in Inr (s3\<lparr>server := Debug ''Remote Cluster Service inactive'' (server s3)\<rparr>)))"

definition onClusterLeaderChange :: "'l state \<Rightarrow> panic + 'l state" where
  "onClusterLeaderChange s = (if IsLeader (server s) then Inr (resume s) else pause s)"

definition Start :: "string \<Rightarrow> 'l state \<Rightarrow> panic + 'l state" where
  "Start handle s =
     (let (h, srv) = AddClusterLeaderChangedListener handle (server s);
          s1 = s\<lparr>leaderListenerId := h, server := srv\<rparr>
      in onClusterLeaderChange s1)"

definition Shutdown :: "'l state \<Rightarrow> panic + 'l state" where
  "Shutdown s =
     pause (s\<lparr>server := RemoveClusterLeaderChangedListener (leaderListenerId s) (server s)\<rparr>)"

subsection \<open>Runs of the service\<close>

text \<open>
  A run is a sequence of calls on the service and of changes of its environment: the
  node gains or loses leadership, a test sets \<^verbatim>\<open>disablePing\<close>. A run stops at the
  first panic.
\<close>

datatype 'l call =
    CallResume
  | CallPause
  | CallStart string
  | CallShutdown
  | CallOnClusterLeaderChange
  | CallAddTopicListener string string 'l
  | CallRemoveTopicListener "string list" string
  | SetLeader bool
  | SetDisablePing bool

fun step :: "'l call \<Rightarrow> 'l state \<Rightarrow> panic + 'l state" where
  "step CallResume s = Inr (resume s)"
| "step CallPause s = pause s"
| "step (CallStart handle) s = Start handle s"
| "step CallShutdown s = Shutdown s"
| "step CallOnClusterLeaderChange s = onClusterLeaderChange s"
| "step (CallAddTopicListener newId topic l) s =
     (case AddTopicListener newId topic l s of Inl p \<Rightarrow> Inl p | Inr (i, s') \<Rightarrow> Inr s')"
| "step (CallRemoveTopicListener order listenerId) s = Inr (RemoveTopicListener order listenerId s)"
| "step (SetLeader b) s = Inr (s\<lparr>server := (server s)\<lparr>leader := b\<rparr>\<rparr>)"
| "step (SetDisablePing b) s = Inr (s\<lparr>disablePing := b\<rparr>)"

fun run :: "'l call list \<Rightarrow> 'l state \<Rightarrow> panic + 'l state" where
  "run [] s = Inr s"
| "run (c # cs) s = (case step c s of Inl p \<Rightarrow> Inl p | Inr s' \<Rightarrow> run cs s')"

text \<open>
  The signal is live: \<^verbatim>\<open>done\<close> is not nil, it is the channel made last (only
  \<^verbatim>\<open>resume\<close> makes channels), and it is open.
\<close>

definition signal_live :: "'l state \<Rightarrow> bool" where
  "signal_live s \<longleftrightarrow>
     (case done_ch s of
        None \<Rightarrow> False
      | Some c \<Rightarrow> Suc c = length (chans s) \<and> chans s ! c = Open)"

text \<open>
  The lifecycle fields agree: an active service has a live signal, an inactive one has
  a nil \<^verbatim>\<open>done\<close>.
\<close>

definition lifecycle_ok :: "'l state \<Rightarrow> bool" where
  "lifecycle_ok s \<longleftrightarrow> (if active s then signal_live s else done_ch s = None)"

text \<open>The number of starts of a pipeline between a state and a later one.\<close>

definition starts :: "pipeline \<Rightarrow> 'l state \<Rightarrow> 'l state \<Rightarrow> nat" where
  "starts p s s' =
     length (filter (\<lambda>x. fst x = p) (started s')) - length (filter (\<lambda>x. fst x = p) (started s))"

text \<open>
  Successive calls of \<^verbatim>\<open>AddTopicListener\<close> on one topic, with the ids that
  \<^verbatim>\<open>model.NewId\<close> returns and the listeners registered; the result holds the ids
  returned, in the order of the calls.
\<close>

fun add_listeners ::
  "string \<Rightarrow> (string \<times> 'l) list \<Rightarrow> 'l state \<Rightarrow> panic + (string list \<times> 'l state)" where
  "add_listeners topic [] s = Inr ([], s)"
| "add_listeners topic ((newId, l) # rest) s =
     (case AddTopicListener newId topic l s of
        Inl p \<Rightarrow> Inl p
      | Inr (i, s') \<Rightarrow>
          (case add_listeners topic rest s' of
             Inl p \<Rightarrow> Inl p
           | Inr (ids, s'') \<Rightarrow> Inr (i # ids, s'')))"

text \<open>
  The entries registered for a topic: those of its bucket, none when the bucket is nil
  or the topic has no bucket.
\<close>

definition entries_of :: "'l state \<Rightarrow> string \<Rightarrow> (string, 'l topicListenerEntry) fmap" where
  "entries_of s topic =
     (case index_bucket (topicListeners s) topic of None \<Rightarrow> fmempty | Some f \<Rightarrow> f)"

text \<open>The registration of one listener in the entries of a bucket.\<close>

definition register ::
  "(string, 'l topicListenerEntry) fmap \<Rightarrow> string \<times> 'l \<Rightarrow> (string, 'l topicListenerEntry) fmap" where
  "register f x = fmupd (fst x) \<lparr>id_entry = fst x, listener = snd x\<rparr> f"

text \<open>A server that is not the leader and has no listener registered, for the examples.\<close>

definition example_server :: server where
  "example_server = \<lparr>leader = False, clusterLeaderChangedListeners = [], logged = []\<rparr>"

text \<open>A service with one listener, with id "a", registered for the topic "t".\<close>

definition example_registered :: "nat state" where
  "example_registered =
     (NewRemoteClusterService example_server)
       \<lparr>topicListeners :=
          fmupd ''t'' (Some (fmupd ''a'' \<lparr>id_entry = ''a'', listener = 7\<rparr> fmempty)) fmempty\<rparr>"

section \<open>The response envelope\<close>

text \<open>
  C7. For every Response whose status key holds a value whose textual form is "FAIL" and
  whose key "err" holds the string \<open>x\<close>, \<^verbatim>\<open>Error()\<close> is exactly "FAIL: " followed by
  \<open>x\<close>; for every Response whose status, as \<^verbatim>\<open>String\<close> reads it, is not the failure
  sentinel, \<^verbatim>\<open>Error()\<close> is the empty string.
\<close>

theorem Error_fail_format:
  "(fmlookup r ResponseStatusKey = Some v \<and> Sprint v = ''FAIL'' \<and>
      fmlookup r ResponseErrorKey = Some (VString x) \<longrightarrow> Error r = ''FAIL: '' @ x) \<and>
   (String r ResponseStatusKey \<noteq> ResponseStatusFail \<longrightarrow> Error r = [])"
  by (simp add: Error_def String_def Sprintf_s_s_def ResponseStatusFail_def)

theorem Error_fail_format_witness:
  "Error (fmupd ''status'' (VString ''FAIL'') (fmupd ''err'' (VString ''x'') fmempty)) = ''FAIL: x'' \<and>
   Error (fmupd ''status'' (VString ''PENDING'') (fmupd ''err'' (VString ''x'') fmempty)) = []"
  using
    Error_fail_format [of "fmupd ''status'' (VString ''FAIL'') (fmupd ''err'' (VString ''x'') fmempty)"
      "VString ''FAIL''" "''x''"]
    Error_fail_format [of "fmupd ''status'' (VString ''PENDING'') (fmupd ''err'' (VString ''x'') fmempty)"]
  by (simp add: ResponseStatusKey_def ResponseErrorKey_def ResponseStatusFail_def String_def)

text \<open>
  C8. For every Response in which the status key is missing, and for every Response
  whose status (the rendering of the value under the status key, which is what the
  methods compare) is neither "OK" nor "FAIL", \<^verbatim>\<open>IsSuccess()\<close> is false and
  \<^verbatim>\<open>Error()\<close> is the empty string.
\<close>

theorem other_status_not_success_no_error:
  "fmlookup r ResponseStatusKey = None \<or>
   (\<exists>v. fmlookup r ResponseStatusKey = Some v \<and>
        Sprint v \<noteq> ResponseStatusOK \<and> Sprint v \<noteq> ResponseStatusFail)
   \<Longrightarrow> \<not> IsSuccess r \<and> Error r = []"
  by (auto simp: IsSuccess_def Error_def String_def ResponseStatusOK_def ResponseStatusFail_def)

theorem other_status_not_success_no_error_witness:
  "\<not> IsSuccess (fmupd ''err'' (VString ''x'') fmempty) \<and>
   Error (fmupd ''err'' (VString ''x'') fmempty) = [] \<and>
   \<not> IsSuccess (fmupd ''status'' (VString ''PENDING'') fmempty) \<and>
   Error (fmupd ''status'' (VString ''PENDING'') fmempty) = []"
  using
    other_status_not_success_no_error [of "fmupd ''err'' (VString ''x'') fmempty"]
    other_status_not_success_no_error [of "fmupd ''status'' (VString ''PENDING'') fmempty"]
  by (simp add: ResponseStatusKey_def ResponseStatusOK_def ResponseStatusFail_def)

text \<open>
  C10. The status is interpreted through its rendering by the verb v, not by equality on
  the stored value: for every Response with a value under the status key,
  \<^verbatim>\<open>IsSuccess()\<close> holds exactly when the rendering of that value is "OK", whatever
  its dynamic type; when the rendering is "FAIL", \<^verbatim>\<open>Error()\<close> is "FAIL: " followed by
  the rendering of the value under "err" (nothing when that key is missing).
\<close>

theorem status_by_rendering:
  "fmlookup r ResponseStatusKey = Some v \<Longrightarrow>
     (IsSuccess r \<longleftrightarrow> Sprint v = ''OK'') \<and>
     (Sprint v = ''FAIL'' \<longrightarrow>
        Error r = ''FAIL: '' @ (case fmlookup r ResponseErrorKey of None \<Rightarrow> [] | Some e \<Rightarrow> Sprint e))"
  by (simp add: IsSuccess_def Error_def String_def Sprintf_s_s_def ResponseStatusOK_def
        ResponseStatusFail_def split: option.splits)

theorem status_by_rendering_witness:
  "IsSuccess (fmupd ''status'' (VOther ''OK'') fmempty) \<and>
   Error (fmupd ''status'' (VOther ''FAIL'') (fmupd ''err'' (VInt 42) fmempty)) = ''FAIL: 42''"
  using
    status_by_rendering [of "fmupd ''status'' (VOther ''OK'') fmempty" "VOther ''OK''"]
    status_by_rendering [of "fmupd ''status'' (VOther ''FAIL'') (fmupd ''err'' (VInt 42) fmempty)"
      "VOther ''FAIL''"]
  by (simp add: ResponseStatusKey_def ResponseErrorKey_def decimal.simps digit_def)

section \<open>The lifecycle\<close>

lemma resume_ok: "lifecycle_ok s \<Longrightarrow> lifecycle_ok (resume s)"
  by (cases "active s")
     (simp_all add: lifecycle_ok_def resume_def signal_live_def make_chan_def pingLoop_def sendLoop_def Let_def)

lemma resume_active: "active (resume s)"
  by (simp add: resume_def make_chan_def pingLoop_def sendLoop_def Let_def)

lemma pause_inactive: "\<not> active s \<Longrightarrow> pause s = Inr s"
  by (simp add: pause_def)

lemma pause_active:
  assumes "active s" "done_ch s = Some c" "c < length (chans s)" "chans s ! c = Open"
  shows "pause s = Inr (s\<lparr>active := False, chans := (chans s)[c := Closed], done_ch := None,
           server := Debug ''Remote Cluster Service inactive'' (server s)\<rparr>)"
  using assms by (simp add: pause_def close_chan_def Let_def)

lemma pause_ok:
  assumes "lifecycle_ok s"
  shows "\<exists>s'. pause s = Inr s' \<and> lifecycle_ok s' \<and> \<not> active s'"
proof (cases "active s")
  case False
  with assms show ?thesis by (simp add: pause_inactive)
next
  case True
  with assms obtain c where c: "done_ch s = Some c" "Suc c = length (chans s)" "chans s ! c = Open"
    by (auto simp: lifecycle_ok_def signal_live_def split: option.splits)
  then have "c < length (chans s)" by simp
  from pause_active [OF True c(1) this c(3)] show ?thesis
    by (simp add: lifecycle_ok_def)
qed

lemma onClusterLeaderChange_ok:
  "lifecycle_ok s \<Longrightarrow> \<exists>s'. onClusterLeaderChange s = Inr s' \<and> lifecycle_ok s'"
  using pause_ok [of s] resume_ok [of s] by (auto simp: onClusterLeaderChange_def)

lemma signal_live_same:
  "done_ch s' = done_ch s \<Longrightarrow> chans s' = chans s \<Longrightarrow> signal_live s' = signal_live s"
  by (simp add: signal_live_def split: option.splits)

lemma lifecycle_ok_same:
  "lifecycle_ok s \<Longrightarrow> active s' = active s \<Longrightarrow> done_ch s' = done_ch s \<Longrightarrow>
   chans s' = chans s \<Longrightarrow> lifecycle_ok s'"
  using signal_live_same [of s' s] by (simp add: lifecycle_ok_def)

lemma Start_ok:
  assumes "lifecycle_ok s"
  shows "\<exists>s'. Start h s = Inr s' \<and> lifecycle_ok s'"
proof -
  let ?s1 = "s\<lparr>leaderListenerId := h,
    server := (server s)\<lparr>clusterLeaderChangedListeners := clusterLeaderChangedListeners (server s) @ [h]\<rparr>\<rparr>"
  have "lifecycle_ok ?s1" by (rule lifecycle_ok_same [OF assms]) simp_all
  from onClusterLeaderChange_ok [OF this] obtain s' where
    "onClusterLeaderChange ?s1 = Inr s'" "lifecycle_ok s'" by blast
  moreover have "Start h s = onClusterLeaderChange ?s1"
    by (simp add: Start_def AddClusterLeaderChangedListener_def)
  ultimately show ?thesis by simp
qed

lemma Shutdown_ok:
  assumes "lifecycle_ok s"
  shows "\<exists>s'. Shutdown s = Inr s' \<and> lifecycle_ok s' \<and> \<not> active s'"
  unfolding Shutdown_def
  by (rule pause_ok, rule lifecycle_ok_same [OF assms]) simp_all

lemma AddTopicListener_total:
  "\<exists>s'. AddTopicListener newId topic l s = Inr (newId, s') \<and> active s' = active s \<and> done_ch s' = done_ch s \<and> chans s' = chans s"
  by (simp add: AddTopicListener_def index_bucket_def map_assign_def Let_def split: option.splits)

lemma step_ok:
  assumes "lifecycle_ok s"
  shows "\<exists>s'. step c s = Inr s' \<and> lifecycle_ok s'"
proof (cases c)
  case CallResume
  then show ?thesis by (simp add: resume_ok assms)
next
  case CallPause
  then show ?thesis using pause_ok [OF assms] by (simp, blast)
next
  case (CallStart h)
  then show ?thesis using Start_ok [OF assms, of h] by simp
next
  case CallShutdown
  then show ?thesis using Shutdown_ok [OF assms] by (simp, blast)
next
  case CallOnClusterLeaderChange
  then show ?thesis using onClusterLeaderChange_ok [OF assms] by simp
next
  case (CallAddTopicListener newId topic l)
  obtain s' where s': "AddTopicListener newId topic l s = Inr (newId, s')"
    "active s' = active s" "done_ch s' = done_ch s" "chans s' = chans s"
    using AddTopicListener_total [of newId topic l s] by blast
  have "lifecycle_ok s'" by (rule lifecycle_ok_same [OF assms s'(2-4)])
  then show ?thesis using CallAddTopicListener s'(1) by simp
next
  case (CallRemoveTopicListener order i)
  have "lifecycle_ok (RemoveTopicListener order i s)"
    by (rule lifecycle_ok_same [OF assms]) (simp_all add: RemoveTopicListener_def)
  then show ?thesis using CallRemoveTopicListener by simp
next
  case (SetLeader b)
  have "lifecycle_ok (s\<lparr>server := (server s)\<lparr>leader := b\<rparr>\<rparr>)"
    by (rule lifecycle_ok_same [OF assms]) simp_all
  then show ?thesis using SetLeader by simp
next
  case (SetDisablePing b)
  have "lifecycle_ok (s\<lparr>disablePing := b\<rparr>)"
    by (rule lifecycle_ok_same [OF assms]) simp_all
  then show ?thesis using SetDisablePing by simp
qed

lemma run_ok: "lifecycle_ok s \<Longrightarrow> \<exists>s'. run cs s = Inr s' \<and> lifecycle_ok s'"
proof (induction cs arbitrary: s)
  case Nil
  then show ?case by simp
next
  case (Cons c cs)
  from step_ok [OF Cons.prems] obtain s1 where "step c s = Inr s1" "lifecycle_ok s1" by blast
  with Cons.IH [of s1] show ?case by simp
qed

lemma New_ok: "lifecycle_ok (NewRemoteClusterService srv)"
  by (simp add: lifecycle_ok_def NewRemoteClusterService_def)

lemma lifecycle_ok_iff: "lifecycle_ok s \<Longrightarrow> active s \<longleftrightarrow> signal_live s"
  by (cases "active s") (simp_all add: lifecycle_ok_def signal_live_def)

text \<open>
  C1. In every state that the service reaches from its construction by calls of
  \<^verbatim>\<open>resume\<close>, \<^verbatim>\<open>pause\<close>, \<^verbatim>\<open>Start\<close> and \<^verbatim>\<open>Shutdown\<close> (and by the
  other steps of a run), \<^verbatim>\<open>active\<close> holds exactly when \<^verbatim>\<open>done\<close> is a live
  signal: not nil, the channel made by the most recent \<^verbatim>\<open>resume\<close>, and not closed.
\<close>

theorem active_iff_signal_live:
  "run cs (NewRemoteClusterService srv) = Inr s \<Longrightarrow> active s \<longleftrightarrow> signal_live s"
proof -
  assume r: "run cs (NewRemoteClusterService srv) = Inr s"
  from run_ok [OF New_ok, of cs srv] r have "lifecycle_ok s" by simp
  then show ?thesis by (rule lifecycle_ok_iff)
qed


lemma pause_fields:
  assumes "pause s = Inr s'"
  shows "\<not> active s'" and "topicListeners s' = topicListeners s"
    and "leaderListenerId s' = leaderListenerId s"
    and "clusterLeaderChangedListeners (server s') = clusterLeaderChangedListeners (server s)"
    and "active s \<Longrightarrow> done_ch s' = None"
  using assms
  by (auto simp: pause_def close_chan_def Let_def Debug_def split: if_splits option.splits)

text \<open>
  C2. On an inactive service \<^verbatim>\<open>pause\<close> returns the state unchanged: it closes
  nothing and cannot fault. After any \<^verbatim>\<open>pause\<close> that returns, a second
  \<^verbatim>\<open>pause\<close> is such a no-op, so no signal is closed twice.
\<close>

theorem pause_inactive_noop:
  "(\<not> active s \<longrightarrow> pause s = Inr s) \<and> (\<forall>s'. pause s = Inr s' \<longrightarrow> pause s' = Inr s')"
  using pause_fields(1) [of s] by (simp add: pause_inactive)

lemma resume_idem: "resume (resume s) = resume s"
  using resume_active [of s] by (simp add: resume_def [of "resume s"])

lemma started_resume:
  "started (resume s) =
     started s @ (if active s then []
                  else (if disablePing s then [] else [(PingLoop, Some (length (chans s)))])
                       @ [(SendLoop, Some (length (chans s)))])"
  by (simp add: resume_def make_chan_def pingLoop_def sendLoop_def Let_def)

text \<open>
  C3, as amended. For every state, the second of two calls of \<^verbatim>\<open>resume\<close> in a row
  changes nothing and starts nothing. The two calls start the send pipeline once when the
  service was inactive before the first call, and the ping pipeline once when it was
  inactive and \<^verbatim>\<open>disablePing\<close> is not set; they start nothing when the service was
  already active.
\<close>

theorem resume_twice_starts:
  "resume (resume s) = resume s \<and>
   starts SendLoop s (resume (resume s)) = (if active s then 0 else 1) \<and>
   starts PingLoop s (resume (resume s)) = (if active s \<or> disablePing s then 0 else 1) \<and>
   starts p (resume s) (resume (resume s)) = 0"
  by (simp add: resume_idem starts_def started_resume)

text \<open>
  C9. In every state that the service reaches from its construction, also when it was
  never started or is paused, \<^verbatim>\<open>Shutdown\<close> returns without a fault: the handle
  stored in \<^verbatim>\<open>leaderListenerId\<close> (the empty string when \<^verbatim>\<open>Start\<close> was never
  called) is no longer registered, the service is inactive with a nil \<^verbatim>\<open>done\<close>,
  the registry and the handle are untouched, and when the service was already inactive
  the pause step changes nothing.
\<close>

theorem Shutdown_safe:
  assumes "run cs (NewRemoteClusterService srv) = Inr s"
  shows "\<exists>s'. Shutdown s = Inr s' \<and> \<not> active s' \<and> done_ch s' = None \<and>
           (active s' \<longleftrightarrow> signal_live s') \<and>
           leaderListenerId s \<notin> set (clusterLeaderChangedListeners (server s')) \<and>
           topicListeners s' = topicListeners s \<and>
           leaderListenerId s' = leaderListenerId s \<and>
           (\<not> active s \<longrightarrow>
              s' = s\<lparr>server := RemoveClusterLeaderChangedListener (leaderListenerId s) (server s)\<rparr>)"
proof -
  let ?s0 = "s\<lparr>server := RemoveClusterLeaderChangedListener (leaderListenerId s) (server s)\<rparr>"
  from run_ok [OF New_ok, of cs srv] assms have ok: "lifecycle_ok s" by simp
  have ok0: "lifecycle_ok ?s0" by (rule lifecycle_ok_same [OF ok]) simp_all
  from pause_ok [OF ok0] obtain s' where s': "pause ?s0 = Inr s'" "lifecycle_ok s'" "\<not> active s'"
    by blast
  have sd: "Shutdown s = Inr s'" using s'(1) by (simp add: Shutdown_def)
  have d: "done_ch s' = None" using s'(2,3) by (simp add: lifecycle_ok_def)
  have l: "active s' \<longleftrightarrow> signal_live s'" by (rule lifecycle_ok_iff [OF s'(2)])
  have h: "leaderListenerId s \<notin> set (clusterLeaderChangedListeners (server s'))"
    using pause_fields(4) [OF s'(1)] by (simp add: RemoveClusterLeaderChangedListener_def)
  have t: "topicListeners s' = topicListeners s" using pause_fields(2) [OF s'(1)] by simp
  have i: "leaderListenerId s' = leaderListenerId s" using pause_fields(3) [OF s'(1)] by simp
  have n: "\<not> active s \<longrightarrow> s' = ?s0"
  proof
    assume "\<not> active s"
    then have "pause ?s0 = Inr ?s0" by (simp add: pause_inactive)
    with s'(1) show "s' = ?s0" by simp
  qed
  from sd s'(3) d l h t i n show ?thesis by blast
qed


lemmas ev = NewRemoteClusterService_def example_server_def Start_def Shutdown_def onClusterLeaderChange_def
  resume_def pause_def make_chan_def close_chan_def pingLoop_def sendLoop_def Debug_def IsLeader_def
  AddClusterLeaderChangedListener_def RemoveClusterLeaderChangedListener_def Let_def
  signal_live_def starts_def

text \<open>Two runs for C1: a start as leader, and the same followed by a shutdown.\<close>

theorem active_iff_signal_live_witness:
  "(case run [SetLeader True, CallStart ''h''] (NewRemoteClusterService example_server :: unit state) of
      Inl p \<Rightarrow> False | Inr s \<Rightarrow> active s \<and> signal_live s) \<and>
   (case run [SetLeader True, CallStart ''h'', CallShutdown] (NewRemoteClusterService example_server :: unit state) of
      Inl p \<Rightarrow> False | Inr s \<Rightarrow> \<not> active s \<and> \<not> signal_live s)"
proof -
  obtain s1 where s1: "run [SetLeader True, CallStart ''h''] (NewRemoteClusterService example_server :: unit state) = Inr s1"
    "active s1"
    by (simp add: ev)
  obtain s2 where s2: "run [SetLeader True, CallStart ''h'', CallShutdown] (NewRemoteClusterService example_server :: unit state) = Inr s2"
    "\<not> active s2"
    by (simp add: ev)
  from active_iff_signal_live [OF s1(1)] active_iff_signal_live [OF s2(1)] s1 s2
  show ?thesis by simp
qed

text \<open>C2 on a fresh service and on one that was resumed.\<close>

theorem pause_inactive_noop_witness:
  "pause (NewRemoteClusterService example_server :: unit state) = Inr (NewRemoteClusterService example_server) \<and>
   (case pause (resume (NewRemoteClusterService example_server :: unit state)) of
      Inl p \<Rightarrow> False | Inr s' \<Rightarrow> pause s' = Inr s' \<and> chans s' = [Closed])"
  using pause_inactive_noop [of "NewRemoteClusterService example_server :: unit state"]
    pause_inactive_noop [of "resume (NewRemoteClusterService example_server :: unit state)"]
  by (simp add: ev)

text \<open>
  C3 as stated fails: on an active service two calls of \<^verbatim>\<open>resume\<close> start neither
  pipeline, and with \<^verbatim>\<open>disablePing\<close> set they do not start the ping pipeline.
\<close>

theorem resume_twice_counterexample:
  "starts PingLoop (resume (NewRemoteClusterService example_server :: unit state))
     (resume (resume (resume (NewRemoteClusterService example_server)))) = 0 \<and>
   starts SendLoop (resume (NewRemoteClusterService example_server :: unit state))
     (resume (resume (resume (NewRemoteClusterService example_server)))) = 0 \<and>
   starts PingLoop ((NewRemoteClusterService example_server :: unit state)\<lparr>disablePing := True\<rparr>)
     (resume (resume ((NewRemoteClusterService example_server)\<lparr>disablePing := True\<rparr>))) = 0"
  by (simp add: ev)

text \<open>The amended C3 on a fresh service.\<close>

theorem resume_twice_starts_witness:
  "starts SendLoop (NewRemoteClusterService example_server :: unit state)
     (resume (resume (NewRemoteClusterService example_server))) = 1 \<and>
   starts PingLoop (NewRemoteClusterService example_server :: unit state)
     (resume (resume (NewRemoteClusterService example_server))) = 1 \<and>
   resume (resume (NewRemoteClusterService example_server :: unit state)) = resume (NewRemoteClusterService example_server)"
proof -
  have a: "\<not> active (NewRemoteClusterService example_server :: unit state)"
    "\<not> disablePing (NewRemoteClusterService example_server :: unit state)"
    by (simp_all add: NewRemoteClusterService_def)
  from resume_twice_starts [of "NewRemoteClusterService example_server :: unit state" PingLoop] a
  show ?thesis by auto
qed

text \<open>C9 on a service that was never started and on one started as leader.\<close>

theorem Shutdown_safe_witness:
  "Shutdown (NewRemoteClusterService example_server :: unit state) = Inr (NewRemoteClusterService example_server) \<and>
   (case run [SetLeader True, CallStart ''h''] (NewRemoteClusterService example_server :: unit state) of
      Inl p \<Rightarrow> False
    | Inr s \<Rightarrow> (case Shutdown s of Inl p \<Rightarrow> False
               | Inr s' \<Rightarrow> \<not> active s' \<and> done_ch s' = None \<and> chans s' = [Closed] \<and>
                   clusterLeaderChangedListeners (server s') = []))"
proof -
  obtain s1 where s1: "run [SetLeader True, CallStart ''h''] (NewRemoteClusterService example_server :: unit state) = Inr s1"
    by (simp add: ev)
  have s0: "run [] (NewRemoteClusterService example_server :: unit state) = Inr (NewRemoteClusterService example_server)"
    by simp
  from Shutdown_safe [OF s0] Shutdown_safe [OF s1] show ?thesis
    by (simp add: ev)
qed

section \<open>The topic registry\<close>

lemma remove_loop_absent:
  "(\<forall>t. map_index (index_bucket reg t) i = None) \<Longrightarrow> remove_loop ks i reg = reg"
proof (induction ks)
  case Nil
  then show ?case by simp
next
  case (Cons k ks)
  from Cons.prems have "map_index (index_bucket reg k) i = None" by blast
  then have "\<And>b. fmlookup reg k = Some b \<Longrightarrow> map_index b i = None"
    by (simp add: index_bucket_def)
  with Cons show ?case by (simp split: option.splits)
qed

text \<open>
  C6. For every state and every listener id that no bucket holds,
  \<^verbatim>\<open>RemoveTopicListener\<close> returns the state unchanged, whatever the order of the
  range; the function has no operation that can fault.
\<close>

theorem RemoveTopicListener_unknown:
  "(\<forall>topic. map_index (index_bucket (topicListeners s) topic) listenerId = None) \<Longrightarrow>
     RemoveTopicListener order listenerId s = s"
  by (simp add: RemoveTopicListener_def remove_loop_absent)

lemma remove_loop_only:
  assumes "fmlookup reg topic = Some (Some b)" and "fmlookup b i = Some e"
    and "\<forall>t. t \<noteq> topic \<longrightarrow> map_index (index_bucket reg t) i = None"
    and "topic \<in> set ks"
  shows "remove_loop ks i reg =
           (if fcard (fmdom (fmdrop i b)) = 0 then fmdrop topic reg
            else fmupd topic (Some (fmdrop i b)) reg)"
  using assms(4)
proof (induction ks)
  case Nil
  then show ?case by simp
next
  case (Cons k ks)
  show ?case
  proof (cases "k = topic")
    case True
    with assms(1,2) show ?thesis
      by (simp add: map_index_def map_delete_def map_len_def fmdrop_fmupd_same Let_def)
  next
    case False
    with assms(3) have "map_index (index_bucket reg k) i = None" by blast
    then have n: "\<And>b. fmlookup reg k = Some b \<Longrightarrow> map_index b i = None"
      by (simp add: index_bucket_def)
    from False Cons.prems have "topic \<in> set ks" by simp
    from Cons.IH [OF this] n show ?thesis by (simp split: option.splits)
  qed
qed

lemma AddTopicListener_eq:
  "AddTopicListener newId topic l s =
     Inr (newId, s\<lparr>topicListeners :=
            fmupd topic (Some (register (entries_of s topic) (newId, l))) (topicListeners s)\<rparr>)"
  by (simp add: AddTopicListener_def index_bucket_def map_assign_def entries_of_def register_def
        Let_def split: option.splits)

text \<open>
  C4. From every state in which the topic has no bucket, \<^verbatim>\<open>AddTopicListener\<close>
  returns the id that \<^verbatim>\<open>model.NewId\<close> generated and creates the bucket; removing
  that id then leaves no bucket for the topic, whatever the order of the range, and the
  state is the one before the registration. The id is globally unique, as the contract
  of \<^verbatim>\<open>model.NewId\<close> says: no bucket holds it before the call.
\<close>

theorem add_then_remove:
  assumes "fmlookup (topicListeners s) topic = None"
    and "\<forall>t. map_index (index_bucket (topicListeners s) t) newId = None"
  shows "\<exists>s1. AddTopicListener newId topic l s = Inr (newId, s1) \<and>
           fmlookup (topicListeners s1) topic \<noteq> None \<and>
           (\<forall>order. range_order order (Some (topicListeners s1)) \<longrightarrow>
              fmlookup (topicListeners (RemoveTopicListener order newId s1)) topic = None \<and>
              RemoveTopicListener order newId s1 = s)"
proof -
  let ?e = "\<lparr>id_entry = newId, listener = l\<rparr>"
  let ?b = "fmupd newId ?e fmempty"
  let ?reg1 = "fmupd topic (Some ?b) (topicListeners s)"
  let ?s1 = "s\<lparr>topicListeners := ?reg1\<rparr>"
  from assms(1) have eo: "entries_of s topic = fmempty"
    by (simp add: entries_of_def index_bucket_def)
  have add: "AddTopicListener newId topic l s = Inr (newId, ?s1)"
    by (simp add: AddTopicListener_eq eo register_def)
  have others: "\<forall>t. t \<noteq> topic \<longrightarrow> map_index (index_bucket ?reg1 t) newId = None"
    using assms(2) by (simp add: index_bucket_def)
  have drop: "fmdrop topic ?reg1 = topicListeners s"
    using assms(1) by (simp add: fmdrop_fmupd_same fmdrop_idle fmdom_notI)
  have rem: "RemoveTopicListener order newId ?s1 = s"
    if "range_order order (Some ?reg1)" for order
  proof -
    from that have "topic \<in> set order" by (simp add: range_order_def)
    from remove_loop_only [of ?reg1 topic ?b newId ?e order, OF _ _ others this]
    have "remove_loop order newId ?reg1 = fmdrop topic ?reg1"
      by (simp add: fmdrop_fmupd_same)
    with drop show ?thesis by (simp add: RemoveTopicListener_def)
  qed
  have "fmlookup (topicListeners ?s1) topic \<noteq> None" by simp
  with add rem assms(1) show ?thesis by simp
qed


lemma range_values_entries:
  "range_values b ks =
     range_values (Some (case b of None \<Rightarrow> fmempty | Some f \<Rightarrow> f)) ks"
  by (induction ks) (simp_all add: map_index_def split: option.splits)

lemma getTopicListeners_eq:
  "getTopicListeners ks topic s = map listener (range_values (Some (entries_of s topic)) ks)"
proof (cases "fmlookup (topicListeners s) topic")
  case None
  have "range_values (Some fmempty) ks = ([] :: 'a topicListenerEntry list)"
    by (induction ks) (simp_all add: map_index_def)
  with None show ?thesis
    by (simp add: getTopicListeners_def entries_of_def index_bucket_def)
next
  case (Some b)
  then show ?thesis
    using range_values_entries [of b ks]
    by (simp add: getTopicListeners_def entries_of_def index_bucket_def)
qed

lemma range_order_entries:
  "range_order ks (index_bucket (topicListeners s) topic) \<Longrightarrow>
     distinct ks \<and> set ks = fmdom' (entries_of s topic)"
  by (simp add: range_order_def entries_of_def split: option.splits)

lemma length_range_values:
  "set ks \<subseteq> fmdom' f \<Longrightarrow> length (range_values (Some f) ks) = length ks"
  by (induction ks) (auto simp: map_index_def fmlookup_dom'_iff split: option.splits)

lemma set_range_values:
  "set (range_values (Some f) ks) = {e. \<exists>k \<in> set ks. fmlookup f k = Some e}"
  by (induction ks) (auto simp: map_index_def split: option.splits)

lemma fmdom'_registered: "fmdom' (foldl register f xs) = fmdom' f \<union> fst ` set xs"
  by (induction xs arbitrary: f) (auto simp: register_def)

lemma lookup_not_registered:
  "i \<notin> fst ` set xs \<Longrightarrow> fmlookup (foldl register f xs) i = fmlookup f i"
  by (induction xs arbitrary: f) (auto simp: register_def)

lemma lookup_registered:
  "distinct (map fst xs) \<Longrightarrow> (i, l) \<in> set xs \<Longrightarrow>
     fmlookup (foldl register f xs) i = Some \<lparr>id_entry = i, listener = l\<rparr>"
proof (induction xs arbitrary: f)
  case Nil
  then show ?case by simp
next
  case (Cons x xs)
  show ?case
  proof (cases "(i, l) = x")
    case True
    then have x: "x = (i, l)" by simp
    with Cons.prems have "i \<notin> fst ` set xs" by force
    then have "fmlookup (foldl register (register f x) xs) i = fmlookup (register f x) i"
      by (rule lookup_not_registered)
    moreover have "fmlookup (register f x) i = Some \<lparr>id_entry = i, listener = l\<rparr>"
      using x by (simp add: register_def)
    ultimately show ?thesis by simp
  next
    case False
    with Cons show ?thesis by simp
  qed
qed

lemma add_listeners_eq:
  "\<exists>s'. add_listeners topic xs s = Inr (map fst xs, s') \<and>
        entries_of s' topic = foldl register (entries_of s topic) xs"
proof (induction xs arbitrary: s)
  case Nil
  then show ?case by simp
next
  case (Cons x xs)
  obtain i l where x: "x = (i, l)" by (cases x)
  let ?s1 = "s\<lparr>topicListeners :=
     fmupd topic (Some (register (entries_of s topic) (i, l))) (topicListeners s)\<rparr>"
  have e1: "entries_of ?s1 topic = register (entries_of s topic) (i, l)"
    by (simp add: entries_of_def index_bucket_def)
  from Cons.IH [of ?s1] obtain s' where
    "add_listeners topic xs ?s1 = Inr (map fst xs, s')"
    "entries_of s' topic = foldl register (entries_of ?s1 topic) xs" by blast
  with e1 x show ?case by (simp add: AddTopicListener_eq)
qed

lemma empty_bucket_entries:
  "map_len (index_bucket (topicListeners s) topic) = 0 \<Longrightarrow> entries_of s topic = fmempty"
  by (auto simp: map_len_def entries_of_def fmap_ext fmdom_notD split: option.splits)

text \<open>
  C5. From every state in which the topic has no listeners (no bucket, a nil bucket or
  an empty one), with pairwise distinct generated ids, N calls of
  \<^verbatim>\<open>AddTopicListener\<close> on the topic all return, the ids returned are N distinct
  ids, and \<^verbatim>\<open>getTopicListeners\<close> then returns exactly N listeners, the ones
  registered, in whatever order the range visits the bucket.
\<close>

theorem add_n_listeners:
  assumes "map_len (index_bucket (topicListeners s) topic) = 0"
    and "distinct (map fst xs)"
  shows "\<exists>ids s'. add_listeners topic xs s = Inr (ids, s') \<and>
           distinct ids \<and> length ids = length xs \<and>
           (\<forall>ks. range_order ks (index_bucket (topicListeners s') topic) \<longrightarrow>
              length (getTopicListeners ks topic s') = length xs \<and>
              set (getTopicListeners ks topic s') = snd ` set xs)"
proof -
  from add_listeners_eq [of topic xs s] empty_bucket_entries [OF assms(1)]
  obtain s' where s': "add_listeners topic xs s = Inr (map fst xs, s')"
    "entries_of s' topic = foldl register fmempty xs" by auto
  have dom: "fmdom' (entries_of s' topic) = fst ` set xs"
    by (simp add: s'(2) fmdom'_registered)
  have "length (getTopicListeners ks topic s') = length xs \<and>
        set (getTopicListeners ks topic s') = snd ` set xs"
    if "range_order ks (index_bucket (topicListeners s') topic)" for ks
  proof -
    from range_order_entries [OF that] dom have ks: "distinct ks" "set ks = fst ` set xs"
      by simp_all
    have "length (getTopicListeners ks topic s') = length ks"
      using ks(2) dom by (simp add: getTopicListeners_eq length_range_values)
    also have "\<dots> = card (set (map fst xs))" using ks distinct_card [of ks] by simp
    also have "\<dots> = length xs" using assms(2) distinct_card [of "map fst xs"] by simp
    finally have len: "length (getTopicListeners ks topic s') = length xs" .
    let ?F = "entries_of s' topic"
    have "{e. \<exists>k \<in> set ks. fmlookup ?F k = Some e} =
          (\<lambda>x. \<lparr>id_entry = fst x, listener = snd x\<rparr>) ` set xs" (is "?A = ?B")
    proof (intro set_eqI iffI)
      fix e assume "e \<in> ?A"
      then obtain k where k: "k \<in> set ks" "fmlookup ?F k = Some e" by blast
      from k(1) ks(2) obtain l where kl: "(k, l) \<in> set xs" by force
      from lookup_registered [OF assms(2) kl, of fmempty] k(2) s'(2)
      have "e = \<lparr>id_entry = k, listener = l\<rparr>" by simp
      with kl show "e \<in> ?B" by force
    next
      fix e assume "e \<in> ?B"
      then obtain i l where il: "(i, l) \<in> set xs" "e = \<lparr>id_entry = i, listener = l\<rparr>"
        by force
      from il(1) ks(2) have "i \<in> set ks" by force
      moreover from lookup_registered [OF assms(2) il(1), of fmempty] s'(2) il(2)
      have "fmlookup ?F i = Some e" by simp
      ultimately show "e \<in> ?A" by blast
    qed
    then have "set (getTopicListeners ks topic s') = snd ` set xs"
      by (simp add: getTopicListeners_eq set_range_values image_image)
    with len show ?thesis by simp
  qed
  with s'(1) assms(2) show ?thesis by auto
qed


text \<open>C6 on the example: an id that is not registered.\<close>

theorem RemoveTopicListener_unknown_witness:
  "RemoveTopicListener [''t''] ''zz'' example_registered = example_registered"
  using RemoveTopicListener_unknown [of example_registered "''zz''" "[''t'']"]
  by (simp add: example_registered_def index_bucket_def map_index_def)

text \<open>C4 on the example: a listener for a second topic is registered and removed.\<close>

theorem add_then_remove_witness:
  "(case AddTopicListener ''b'' ''u'' 8 example_registered of
      Inl p \<Rightarrow> False
    | Inr (i, s1) \<Rightarrow>
        i = ''b'' \<and> fmlookup (topicListeners s1) ''u'' \<noteq> None \<and>
        RemoveTopicListener [''t'', ''u''] i s1 = example_registered \<and>
        fmlookup (topicListeners (RemoveTopicListener [''t'', ''u''] i s1)) ''u'' = None)"
proof -
  have h1: "fmlookup (topicListeners example_registered) ''u'' = None" by (simp add: example_registered_def)
  have h2: "\<forall>t. map_index (index_bucket (topicListeners example_registered) t) ''b'' = None"
    by (simp add: example_registered_def index_bucket_def map_index_def)
  from add_then_remove [OF h1 h2, of 8] obtain s1 where
    a: "AddTopicListener ''b'' ''u'' 8 example_registered = Inr (''b'', s1)"
    and n: "fmlookup (topicListeners s1) ''u'' \<noteq> None"
    and r: "\<forall>order. range_order order (Some (topicListeners s1)) \<longrightarrow>
              fmlookup (topicListeners (RemoveTopicListener order ''b'' s1)) ''u'' = None \<and>
              RemoveTopicListener order ''b'' s1 = example_registered" by blast
  from a have "topicListeners s1 =
      fmupd ''u'' (Some (fmupd ''b'' \<lparr>id_entry = ''b'', listener = 8\<rparr> fmempty)) (topicListeners example_registered)"
    by (auto simp: AddTopicListener_eq entries_of_def index_bucket_def register_def example_registered_def)
  then have "range_order [''t'', ''u''] (Some (topicListeners s1))"
    by (auto simp: range_order_def example_registered_def)
  with r have "fmlookup (topicListeners (RemoveTopicListener [''t'', ''u''] ''b'' s1)) ''u'' = None \<and>
      RemoveTopicListener [''t'', ''u''] ''b'' s1 = example_registered" by blast
  with a n h1 show ?thesis by simp
qed

text \<open>
  Without a fresh id the order of the range decides: when the generated id is already in
  the bucket of another topic and that topic is visited first, the loop removes the other
  entry and breaks, and the new bucket stays.
\<close>

lemma id_collision_example:
  "(case AddTopicListener ''a'' ''u'' 8 example_registered of
      Inl p \<Rightarrow> False
    | Inr (i, s1) \<Rightarrow>
        fmlookup (topicListeners (RemoveTopicListener [''t'', ''u''] i s1)) ''u'' \<noteq> None \<and>
        fmlookup (topicListeners (RemoveTopicListener [''u'', ''t''] i s1)) ''u'' = None)"
  by (simp add: AddTopicListener_eq entries_of_def index_bucket_def register_def example_registered_def
        RemoveTopicListener_def map_index_def map_delete_def map_len_def Let_def
        NewRemoteClusterService_def)

text \<open>C5 on three registrations on a fresh service.\<close>

theorem add_n_listeners_witness:
  "(case add_listeners ''t'' [(''a'', 1), (''b'', 2), (''c'', 3)]
           (NewRemoteClusterService example_server :: nat state) of
      Inl p \<Rightarrow> False
    | Inr (ids, s') \<Rightarrow>
        ids = [''a'', ''b'', ''c''] \<and>
        getTopicListeners [''c'', ''a'', ''b''] ''t'' s' = [3, 1, 2] \<and>
        length (getTopicListeners [''c'', ''a'', ''b''] ''t'' s') = 3)"
proof -
  let ?s = "NewRemoteClusterService example_server :: nat state"
  let ?xs = "[(''a'', 1), (''b'', 2), (''c'', 3)] :: (string \<times> nat) list"
  have h1: "map_len (index_bucket (topicListeners ?s) ''t'') = 0"
    by (simp add: NewRemoteClusterService_def index_bucket_def map_len_def)
  have h2: "distinct (map fst ?xs)" by simp
  from add_n_listeners [OF h1 h2] obtain ids s' where
    a: "add_listeners ''t'' ?xs ?s = Inr (ids, s')" and d: "distinct ids" "length ids = 3"
    and r: "\<forall>ks. range_order ks (index_bucket (topicListeners s') ''t'') \<longrightarrow>
              length (getTopicListeners ks ''t'' s') = 3" by auto
  from a have e: "ids = [''a'', ''b'', ''c'']"
    "index_bucket (topicListeners s') ''t'' =
       Some (foldl register fmempty ?xs)"
    by (auto simp: AddTopicListener_eq entries_of_def index_bucket_def NewRemoteClusterService_def
          register_def)
  then have ro: "range_order [''c'', ''a'', ''b''] (index_bucket (topicListeners s') ''t'')"
    by (auto simp: range_order_def register_def)
  from e(2) have g: "getTopicListeners [''c'', ''a'', ''b''] ''t'' s' = [3, 1, 2]"
    by (simp add: getTopicListeners_eq entries_of_def register_def map_index_def)
  from r ro have "length (getTopicListeners [''c'', ''a'', ''b''] ''t'' s') = 3" by blast
  with a e(1) g show ?thesis by simp
qed

end
